theory Spec2Isabelle
  imports Main
begin

section \<open>Crash output manager (crash_output_manager.py)\<close>

subsection \<open>Errors\<close>

text \<open>
  Every exception the two crash managers can let escape is a value. The names are the
  ones of the specification's error taxonomy; in Python they are the \<open>OSError\<close>s of
  \<open>os.mkdir\<close> and \<open>shutil.move\<close>, the \<open>OSError\<close> of opening the log file, and
  the \<open>IndexError\<close> of subscripting a list.
\<close>

datatype error =
    IndexError
  | DirectoryCreateError
  | LogOpenError
  | RelocateError

subsection \<open>Strings\<close>

text \<open>
  \<open>s.split(sep)\<close> of Python for a separator of one character: the fields between
  the occurrences of the separator, in order. The list is never empty: a string without
  the separator is its own single field.
\<close>

fun split_str :: "char \<Rightarrow> string \<Rightarrow> string list" where
  "split_str sep [] = [[]]"
| "split_str sep (c # cs) =
     (if c = sep then [] # split_str sep cs
      else (case split_str sep cs of
              [] \<Rightarrow> [[c]]
            | w # ws \<Rightarrow> (c # w) # ws))"

text \<open>\<open>xs[0]\<close>: Python raises \<open>IndexError\<close> on the empty list.\<close>

definition index0 :: "'a list \<Rightarrow> error + 'a" where
  "index0 xs = (case xs of [] \<Rightarrow> Inl IndexError | x # _ \<Rightarrow> Inr x)"

text \<open>The path separator the module writes between path components, a backslash.\<close>

definition bslash :: char where
  "bslash = CHR 0x5C"

subsection \<open>The process environment\<close>

text \<open>
  What the two functions read and change outside themselves:
  \<^item> \<open>parent_of_cwd\<close>: the value of \<open>os.path.dirname(os.getcwd())\<close>;
  \<^item> \<open>dirs\<close>: the paths at which a directory exists;
  \<^item> \<open>files\<close>: the regular files, a path mapped to its content;
  \<^item> \<open>log_target\<close>: the file the root logger's handler writes to, \<open>None\<close> when the
    root logger has no file handler (the process-wide logging sink);
  \<^item> \<open>exc_text\<close>: the rendered traceback of the exception being handled, \<open>None\<close>
    when no exception is being handled.
\<close>

record env =
  parent_of_cwd :: string
  dirs :: "string set"
  files :: "string \<rightharpoonup> string"
  log_target :: "string option"
  exc_text :: "string option"

type_synonym 'a io = "env \<Rightarrow> env \<times> (error + 'a)"

definition isdir :: "env \<Rightarrow> string \<Rightarrow> bool" where
  "isdir st p = (p \<in> dirs st)"

definition path_exists :: "env \<Rightarrow> string \<Rightarrow> bool" where
  "path_exists st p = (p \<in> dirs st \<or> files st p \<noteq> None)"

text \<open>
  \<open>os.mkdir(p)\<close>: raises when something already exists at \<open>p\<close>. The parent here is
  always the existing parent of the working directory.
\<close>

definition os_mkdir :: "string \<Rightarrow> unit io" where
  "os_mkdir p st =
     (if path_exists st p then (st, Inl DirectoryCreateError)
      else (st\<lparr>dirs := insert p (dirs st)\<rparr>, Inr ()))"

text \<open>
  \<open>logging.basicConfig(filename=p, force=True)\<close>: the handlers of the root logger are
  removed and closed first; then a file handler for \<open>p\<close> is made, which opens \<open>p\<close>
  in the default mode, append: an absent file is created empty, an existing file keeps
  its content, and opening fails when \<open>p\<close> is a directory.
\<close>

definition basicConfig :: "string \<Rightarrow> unit io" where
  "basicConfig p st =
     (let st0 = st\<lparr>log_target := None\<rparr> in
      if isdir st0 p then (st0, Inl LogOpenError)
      else (st0\<lparr>files := (files st0)(p \<mapsto> (case files st0 p of None \<Rightarrow> [] | Some c \<Rightarrow> c)),
                log_target := Some p\<rparr>, Inr ()))"

text \<open>
  \<open>logging.error(msg)\<close> on the root logger with the default configuration: the level
  ERROR passes the default threshold, and the default format renders one record,
  \<open>ERROR:root:\<close> followed by the message and a line end, which the handler appends to
  its file. Without a file handler nothing reaches a file.
\<close>

definition render_record :: "string \<Rightarrow> string" where
  "render_record msg = ''ERROR:root:'' @ msg @ ''\<newline>''"

definition logging_error :: "string \<Rightarrow> env \<Rightarrow> env" where
  "logging_error msg st =
     (case log_target st of
        None \<Rightarrow> st
      | Some p \<Rightarrow>
          st\<lparr>files := (files st)(p \<mapsto> (case files st p of None \<Rightarrow> [] | Some c \<Rightarrow> c) @ render_record msg)\<rparr>)"

text \<open>
  \<open>traceback.format_exc()\<close>: the rendered traceback of the exception being handled;
  with no exception being handled it returns the text \<open>NoneType: None\<close> and a line
  end, and does not raise.
\<close>

definition format_exc :: "env \<Rightarrow> string" where
  "format_exc st = (case exc_text st of None \<Rightarrow> ''NoneType: None\<newline>'' | Some t \<Rightarrow> t)"

text \<open>
  The last component of a path, after trailing separators are dropped, as
  \<open>shutil.move\<close> computes it for its source.
\<close>

definition is_sep :: "char \<Rightarrow> bool" where
  "is_sep c = (c = bslash \<or> c = CHR ''/'')"

definition basename :: "string \<Rightarrow> string" where
  "basename p = rev (takeWhile (\<lambda>c. \<not> is_sep c) (dropWhile is_sep (rev p)))"

text \<open>
  \<open>shutil.move(src, dst)\<close> for a source that is a regular file or is absent (the
  crash manager is handed the path of an output file; moving a directory tree is not
  modelled):
  \<^item> when \<open>dst\<close> is an existing directory the file is moved into it, under its own
    base name, and the call raises when that name is taken;
  \<^item> otherwise the file is renamed to \<open>dst\<close>, replacing a file that is there
    (directly, or by copying over it and deleting the source where the rename is refused);
  \<^item> a missing source raises.
  Renaming a file to its own path changes nothing.
\<close>

definition shutil_move :: "string \<Rightarrow> string \<Rightarrow> unit io" where
  "shutil_move src dst st =
     (case files st src of
        None \<Rightarrow> (st, Inl RelocateError)
      | Some c \<Rightarrow>
          if isdir st dst then
            (let real_dst = dst @ [bslash] @ basename src in
             if path_exists st real_dst then (st, Inl RelocateError)
             else (st\<lparr>files := ((files st)(src := None))(real_dst \<mapsto> c)\<rparr>, Inr ()))
          else (st\<lparr>files := ((files st)(src := None))(dst \<mapsto> c)\<rparr>, Inr ()))"

subsection \<open>The two managers\<close>

text \<open>The fixed message \<open>crash_log_manager\<close> logs when its flag is set.\<close>

definition custom_message :: string where
  "custom_message =
     ''\<newline>'' @
     ''\<newline>'' @
     ''[This is a custom logging.error message]\<newline>'' @
     ''\<newline>'' @
     ''| Here is a sentence!\<newline>'' @
     ''| \<newline>'' @
     ''| \<newline>'' @
     ''| Here is another sentence!\<newline>'' @
     ''| \<newline>'' @
     ''|''"

definition output_crash_log_folder_path :: "env \<Rightarrow> string" where
  "output_crash_log_folder_path st = parent_of_cwd st @ [bslash] @ ''Crash Logs''"

definition output_crash_data_folder_path :: "env \<Rightarrow> string" where
  "output_crash_data_folder_path st = parent_of_cwd st @ [bslash] @ ''Crash Data''"

text \<open>
  The file names, \<open>f'{output_file_name.split(".")[0]}_CRASHLOG.log'\<close> and
  \<open>f'{output_file_name.split(".")[0]}_CRASHDUMP.txt'\<close>: the first field of the
  split, then the marker and the new extension.
\<close>

definition output_crash_log_file_name :: "string \<Rightarrow> error + string" where
  "output_crash_log_file_name output_file_name =
     (case index0 (split_str CHR ''.'' output_file_name) of
        Inl e \<Rightarrow> Inl e
      | Inr base \<Rightarrow> Inr (base @ ''_CRASHLOG.log''))"

definition output_crash_data_file_name :: "string \<Rightarrow> error + string" where
  "output_crash_data_file_name output_file_name =
     (case index0 (split_str CHR ''.'' output_file_name) of
        Inl e \<Rightarrow> Inl e
      | Inr base \<Rightarrow> Inr (base @ ''_CRASHDUMP.txt''))"

text \<open>
  \<open>crash_log_manager(output_file_name, optional_bool)\<close>, statement by statement: the
  directory check and \<open>os.mkdir\<close>, the file name from the first field of the split,
  the path, \<open>logging.basicConfig\<close>, one \<open>logging.error\<close>, the path returned.
\<close>

definition crash_log_manager :: "string \<Rightarrow> bool \<Rightarrow> string io" where
  "crash_log_manager output_file_name optional_bool st =
     (case (if \<not> isdir st (output_crash_log_folder_path st)
            then os_mkdir (output_crash_log_folder_path st) st
            else (st, Inr ())) of
        (st1, Inl e) \<Rightarrow> (st1, Inl e)
      | (st1, Inr _) \<Rightarrow>
          (case output_crash_log_file_name output_file_name of
             Inl e \<Rightarrow> (st1, Inl e)
           | Inr file_name \<Rightarrow>
               (let output_crash_log_file_path =
                      output_crash_log_folder_path st @ [bslash] @ file_name
                in case basicConfig output_crash_log_file_path st1 of
                     (st2, Inl e) \<Rightarrow> (st2, Inl e)
                   | (st2, Inr _) \<Rightarrow>
                       (logging_error
                          (if \<not> optional_bool then format_exc st2 else custom_message) st2,
                        Inr output_crash_log_file_path))))"

text \<open>
  \<open>crash_data_manager(output_file_name, output_file_path)\<close>: the directory check and
  \<open>os.mkdir\<close>, the file name, the path, \<open>shutil.move\<close>, the path returned.
\<close>

definition crash_data_manager :: "string \<Rightarrow> string \<Rightarrow> string io" where
  "crash_data_manager output_file_name output_file_path st =
     (case (if \<not> isdir st (output_crash_data_folder_path st)
            then os_mkdir (output_crash_data_folder_path st) st
            else (st, Inr ())) of
        (st1, Inl e) \<Rightarrow> (st1, Inl e)
      | (st1, Inr _) \<Rightarrow>
          (case output_crash_data_file_name output_file_name of
             Inl e \<Rightarrow> (st1, Inl e)
           | Inr file_name \<Rightarrow>
               (let output_crash_data_file_path =
                      output_crash_data_folder_path st @ [bslash] @ file_name
                in case shutil_move output_file_path output_crash_data_file_path st1 of
                     (st2, Inl e) \<Rightarrow> (st2, Inl e)
                   | (st2, Inr _) \<Rightarrow> (st2, Inr output_crash_data_file_path))))"

text \<open>
  The specification's words, to compare the code with: the base name is the input name
  up to its first period, and the two artifacts lie in the two fixed directories of the
  parent of the working directory, the components joined by the backslash the module
  writes.
\<close>

definition base_name :: "string \<Rightarrow> string" where
  "base_name n = takeWhile (\<lambda>c. c \<noteq> CHR ''.'') n"

definition crash_log_path :: "env \<Rightarrow> string \<Rightarrow> string" where
  "crash_log_path st n =
     parent_of_cwd st @ [bslash] @ ''Crash Logs'' @ [bslash] @ base_name n @ ''_CRASHLOG.log''"

definition crash_data_path :: "env \<Rightarrow> string \<Rightarrow> string" where
  "crash_data_path st n =
     parent_of_cwd st @ [bslash] @ ''Crash Data'' @ [bslash] @ base_name n @ ''_CRASHDUMP.txt''"

subsection \<open>Example environments\<close>

text \<open>
  A working directory under \<open>C:\app\<close>, two output files under \<open>C:\work\<close>, no
  crash directory yet, no exception being handled; and the same with a directory
  standing at the path the crash data of \<open>sample.txt\<close> is moved to.
\<close>

definition app_dir :: string where
  "app_dir = ''C:'' @ [bslash] @ ''app''"

definition sample_path :: string where
  "sample_path = ''C:'' @ [bslash] @ ''work'' @ [bslash] @ ''sample.txt''"

definition other_path :: string where
  "other_path = ''C:'' @ [bslash] @ ''work'' @ [bslash] @ ''sample.csv''"

definition example_env :: env where
  "example_env = \<lparr>parent_of_cwd = app_dir, dirs = {app_dir},
     files = [sample_path \<mapsto> ''1.5 V'', other_path \<mapsto> ''2.5 V''],
     log_target = None, exc_text = None\<rparr>"

definition blocked_env :: env where
  "blocked_env = example_env\<lparr>dirs := {app_dir, output_crash_data_folder_path example_env,
      crash_data_path example_env ''sample.txt''}\<rparr>"

section \<open>Mutex-guarded serial port (mutex_serial.py)\<close>

text \<open>
  \<open>MutexSerial\<close> adds a \<open>threading.Lock\<close> to the serial port class and takes it in
  \<open>__enter__\<close>, releases it in \<open>__exit__\<close>. Threads use the object through the
  \<open>with\<close> statement, so each thread runs \<open>__enter__\<close>, the body, \<open>__exit__\<close>, and
  \<open>__exit__\<close> is not run when \<open>__enter__\<close> itself raises. The threads interleave at
  the statements of the two methods; where a thread stands is its program counter:
  \<^item> \<open>Outside\<close>: not inside a \<open>with\<close> statement on the object;
  \<^item> \<open>Locked\<close>: in \<open>__enter__\<close>, \<open>self.my_lock.acquire()\<close> has returned;
  \<^item> \<open>Holding\<close>: \<open>__enter__\<close> has returned, the body of the \<open>with\<close> runs;
  \<^item> \<open>Closed\<close>: in \<open>__exit__\<close>, \<open>self.close()\<close> has returned;
  \<^item> \<open>Failed\<close>: \<open>self.open()\<close> raised in \<open>__enter__\<close> and the exception went to
    the caller, who is outside the \<open>with\<close> statement again.
\<close>

datatype pc = Outside | Locked | Holding | Closed | Failed

text \<open>
  The object: the lock \<open>my_lock\<close>, the port's \<open>is_open\<close>, and the threads that
  use the object, thread \<open>t\<close> at position \<open>t\<close> of \<open>pcs\<close>.
\<close>

record guard =
  locked :: bool
  is_open :: bool
  pcs :: "pc list"

text \<open>
  \<open>__init__\<close>: a fresh, unlocked lock, then the constructor of the serial port class,
  which leaves the port open or closed (\<open>opened\<close>) as its arguments say. No thread
  of the \<open>n\<close> threads is inside a \<open>with\<close> statement yet.
\<close>

definition init :: "nat \<Rightarrow> bool \<Rightarrow> guard" where
  "init n opened = \<lparr>locked = False, is_open = opened, pcs = replicate n Outside\<rparr>"

text \<open>
  One step of one thread:
  \<^item> \<open>Acquire t\<close>: \<open>self.my_lock.acquire()\<close> returns, which it does only while the
    lock is free; until then the thread is blocked;
  \<^item> \<open>Open t ok\<close>: \<open>if not self.is_open: self.open()\<close> and \<open>return self\<close>, where
    \<open>ok\<close> tells whether the device lets \<open>open()\<close> succeed; when it raises, the
    method is left with the lock as it is;
  \<^item> \<open>Body t b\<close>: the body of the \<open>with\<close> statement uses the port and leaves it
    open or closed (\<open>b\<close>);
  \<^item> \<open>Close t\<close>: the body is left, normally or by an exception, and \<open>__exit__\<close>
    runs \<open>self.close()\<close>;
  \<^item> \<open>Release t\<close>: \<open>self.my_lock.release()\<close>.
  A step that the thread cannot take in the state is \<open>None\<close>.
\<close>

datatype action =
    Acquire nat
  | Open nat bool
  | Body nat bool
  | Close nat
  | Release nat

definition at :: "guard \<Rightarrow> nat \<Rightarrow> pc \<Rightarrow> bool" where
  "at g t p = (t < length (pcs g) \<and> pcs g ! t = p)"

definition goto :: "nat \<Rightarrow> pc \<Rightarrow> guard \<Rightarrow> guard" where
  "goto t p g = g\<lparr>pcs := (pcs g)[t := p]\<rparr>"

fun step :: "action \<Rightarrow> guard \<Rightarrow> guard option" where
  "step (Acquire t) g =
     (if (at g t Outside \<or> at g t Failed) \<and> \<not> locked g
      then Some (goto t Locked (g\<lparr>locked := True\<rparr>))
      else None)"
| "step (Open t ok) g =
     (if at g t Locked then
        (if \<not> is_open g then
           (if ok then Some (goto t Holding (g\<lparr>is_open := True\<rparr>))
            else Some (goto t Failed g))
         else Some (goto t Holding g))
      else None)"
| "step (Body t b) g =
     (if at g t Holding then Some (g\<lparr>is_open := b\<rparr>) else None)"
| "step (Close t) g =
     (if at g t Holding then Some (goto t Closed (g\<lparr>is_open := False\<rparr>)) else None)"
| "step (Release t) g =
     (if at g t Closed then Some (goto t Outside (g\<lparr>locked := False\<rparr>)) else None)"

text \<open>A schedule is a list of steps, run from the left.\<close>

fun run :: "action list \<Rightarrow> guard \<Rightarrow> guard option" where
  "run [] g = Some g"
| "run (a # as) g = (case step a g of None \<Rightarrow> None | Some g' \<Rightarrow> run as g')"

text \<open>
  A thread is in the acquisition window from the return of \<open>__enter__\<close> to the
  release of the lock in \<open>__exit__\<close>; it owns the lock from the return of
  \<open>acquire()\<close> on. The guard is unheld when no thread is in the window.
\<close>

definition in_window :: "pc \<Rightarrow> bool" where
  "in_window p = (p = Holding \<or> p = Closed)"

definition owns_lock :: "pc \<Rightarrow> bool" where
  "owns_lock p = (p = Locked \<or> p = Holding \<or> p = Closed)"

definition holders :: "guard \<Rightarrow> nat" where
  "holders g = length (filter in_window (pcs g))"



text \<open>
  Two invariants of the reachable states. The first: a thread that owns the lock finds
  it locked, no two threads own it, and the port is closed while a thread stands
  between \<open>close()\<close> and \<open>release()\<close>. The second: an open port has a thread in
  the body of its \<open>with\<close> statement.
\<close>

definition excl :: "guard \<Rightarrow> bool" where
  "excl g = ((\<forall>t. t < length (pcs g) \<and> owns_lock (pcs g ! t) \<longrightarrow> locked g)
     \<and> (\<forall>t u. t < length (pcs g) \<and> u < length (pcs g)
            \<and> owns_lock (pcs g ! t) \<and> owns_lock (pcs g ! u) \<longrightarrow> t = u)
     \<and> (\<forall>t. t < length (pcs g) \<and> pcs g ! t = Closed \<longrightarrow> \<not> is_open g))"


section \<open>Verification\<close>

subsection \<open>Helper facts\<close>

lemma split_str_nonempty: "split_str sep s \<noteq> []"
  by (induction s) (auto split: list.splits)

lemma split_str_first: "\<exists>ws. split_str sep s = takeWhile (\<lambda>c. c \<noteq> sep) s # ws"
  by (induction s) (auto split: list.splits)

lemma index0_split: "index0 (split_str CHR ''.'' n) = Inr (base_name n)"
proof -
  obtain ws where "split_str CHR ''.'' n = takeWhile (\<lambda>c. c \<noteq> CHR ''.'') n # ws"
    using split_str_first by blast
  then show ?thesis by (simp add: index0_def base_name_def)
qed

lemmas example_defs = example_env_def app_dir_def sample_path_def other_path_def blocked_env_def
  crash_log_path_def crash_data_path_def output_crash_log_folder_path_def
  output_crash_data_folder_path_def isdir_def path_exists_def bslash_def base_name_def

lemma log_file_name_eq: "output_crash_log_file_name n = Inr (base_name n @ ''_CRASHLOG.log'')"
  by (simp add: output_crash_log_file_name_def index0_split)

lemma data_file_name_eq: "output_crash_data_file_name n = Inr (base_name n @ ''_CRASHDUMP.txt'')"
  by (simp add: output_crash_data_file_name_def index0_split)

lemma log_path_not_folder: "crash_log_path st n \<noteq> output_crash_log_folder_path st"
  by (simp add: crash_log_path_def output_crash_log_folder_path_def)

lemma data_path_not_folder: "crash_data_path st n \<noteq> output_crash_data_folder_path st"
  by (simp add: crash_data_path_def output_crash_data_folder_path_def)

lemma log_path_split:
  "output_crash_log_folder_path st @ bslash # base_name n @ ''_CRASHLOG.log'' = crash_log_path st n"
  by (simp add: crash_log_path_def output_crash_log_folder_path_def)

lemma data_path_split:
  "output_crash_data_folder_path st @ bslash # base_name n @ ''_CRASHDUMP.txt'' = crash_data_path st n"
  by (simp add: crash_data_path_def output_crash_data_folder_path_def)

text \<open>
  The log manager in one equation: the three ways it can end, and the environment it
  leaves in each.
\<close>

lemma crash_log_manager_unfold:
  "crash_log_manager n b st =
    (if \<not> isdir st (output_crash_log_folder_path st) \<and> path_exists st (output_crash_log_folder_path st)
     then (st, Inl DirectoryCreateError)
     else if isdir st (crash_log_path st n)
     then (st\<lparr>dirs := insert (output_crash_log_folder_path st) (dirs st), log_target := None\<rparr>,
           Inl LogOpenError)
     else (st\<lparr>dirs := insert (output_crash_log_folder_path st) (dirs st),
              files := (files st)(crash_log_path st n \<mapsto>
                 (case files st (crash_log_path st n) of None \<Rightarrow> [] | Some c \<Rightarrow> c) @
                 render_record (if b then custom_message else format_exc st)),
              log_target := Some (crash_log_path st n)\<rparr>, Inr (crash_log_path st n)))"
  using log_path_not_folder[of st n]
  by (auto simp: crash_log_manager_def log_file_name_eq log_path_split os_mkdir_def basicConfig_def
       logging_error_def isdir_def path_exists_def Let_def format_exc_def insert_absorb)

text \<open>The data manager likewise, up to the move.\<close>

lemma crash_data_manager_unfold:
  "crash_data_manager n src st =
    (if \<not> isdir st (output_crash_data_folder_path st) \<and> path_exists st (output_crash_data_folder_path st)
     then (st, Inl DirectoryCreateError)
     else (case shutil_move src (crash_data_path st n)
                 (st\<lparr>dirs := insert (output_crash_data_folder_path st) (dirs st)\<rparr>) of
             (st2, Inl e) \<Rightarrow> (st2, Inl e)
           | (st2, Inr _) \<Rightarrow> (st2, Inr (crash_data_path st n))))"
  by (auto simp: crash_data_manager_def data_file_name_eq data_path_split os_mkdir_def
       isdir_def path_exists_def Let_def insert_absorb)

lemma data_move_ok:
  assumes "files st src = Some c"
      and "crash_data_manager n src st = (st', Inr p)"
      and "src \<noteq> crash_data_path st n"
      and "\<not> isdir st (crash_data_path st n)"
  shows "p = crash_data_path st n \<and> files st' = ((files st)(src := None))(p \<mapsto> c)
         \<and> dirs st' = insert (output_crash_data_folder_path st) (dirs st)
         \<and> parent_of_cwd st' = parent_of_cwd st"
  using assms data_path_not_folder[of st n] unfolding crash_data_manager_unfold
  by (auto simp: shutil_move_def isdir_def split: if_splits)

lemma parent_of_cwd_log: "parent_of_cwd (fst (crash_log_manager n b st)) = parent_of_cwd st"
  unfolding crash_log_manager_unfold by simp

lemma base_names_paths:
  "base_name n1 \<noteq> base_name n2 \<Longrightarrow> parent_of_cwd s = parent_of_cwd t \<Longrightarrow>
   crash_log_path s n1 \<noteq> crash_log_path t n2"
  by (simp add: crash_log_path_def)

subsection \<open>Relocation of the output file\<close>

text \<open>
  Claim C4, as the code has it. \<open>crash_data_manager\<close> moves the file: when a file with
  content \<open>c\<close> is at \<open>output_file_path\<close>, the call succeeds, the path differs from
  the derived crash-data path and no directory stands at the derived path, then after
  the call no file is at \<open>output_file_path\<close>, the file at the derived path has the
  content \<open>c\<close>, and the derived path is the value returned.
\<close>

theorem crash_data_moves:
  assumes "files st src = Some c"
      and "crash_data_manager n src st = (st', Inr p)"
      and "src \<noteq> crash_data_path st n"
      and "\<not> isdir st (crash_data_path st n)"
  shows "p = crash_data_path st n \<and> files st' src = None \<and> files st' p = Some c"
  using assms data_path_not_folder[of st n] unfolding crash_data_manager_unfold
  by (auto simp: shutil_move_def isdir_def split: if_splits)

text \<open>The move of \<open>C:\work\sample.txt\<close> in the example environment.\<close>

theorem crash_data_moves_witness:
  "files example_env sample_path = Some ''1.5 V''
   \<and> sample_path \<noteq> crash_data_path example_env ''sample.txt''
   \<and> \<not> isdir example_env (crash_data_path example_env ''sample.txt'')
   \<and> snd (crash_data_manager ''sample.txt'' sample_path example_env)
       = Inr (crash_data_path example_env ''sample.txt'')
   \<and> files (fst (crash_data_manager ''sample.txt'' sample_path example_env)) sample_path = None
   \<and> files (fst (crash_data_manager ''sample.txt'' sample_path example_env))
        (crash_data_path example_env ''sample.txt'') = Some ''1.5 V''"
proof -
  have h1: "files example_env sample_path = Some ''1.5 V''"
    by (simp add: example_defs)
  obtain s p where h2: "crash_data_manager ''sample.txt'' sample_path example_env = (s, Inr p)"
    unfolding crash_data_manager_unfold by (simp add: example_defs shutil_move_def)
  have h3: "sample_path \<noteq> crash_data_path example_env ''sample.txt''"
    by (simp add: example_defs)
  have h4: "\<not> isdir example_env (crash_data_path example_env ''sample.txt'')"
    by (simp add: example_defs)
  from crash_data_moves[OF h1 h2 h3 h4] h1 h2 h3 h4 show ?thesis by auto
qed

text \<open>
  Claim C4 as it is written fails where a directory stands at the derived path:
  \<open>shutil.move\<close> then puts the file inside that directory, the call succeeds and
  returns the derived path, and no file is at the derived path.
\<close>

theorem crash_data_dir_counterexample:
  "files blocked_env sample_path = Some ''1.5 V''
   \<and> snd (crash_data_manager ''sample.txt'' sample_path blocked_env)
       = Inr (crash_data_path blocked_env ''sample.txt'')
   \<and> files (fst (crash_data_manager ''sample.txt'' sample_path blocked_env))
        (crash_data_path blocked_env ''sample.txt'') = None"
  unfolding crash_data_manager_unfold
  by (simp add: example_defs shutil_move_def basename_def is_sep_def)

subsection \<open>Names and paths\<close>

text \<open>
  Claim C5. For every input file name the first field of the split, which subscripting
  never fails to find, is the name up to its first period; the log file name is that
  base followed by \<open>_CRASHLOG.log\<close>, the data file name that base followed by
  \<open>_CRASHDUMP.txt\<close>; and a name without a period is its own base.
\<close>

theorem name_derivation:
  "index0 (split_str CHR ''.'' n) = Inr (takeWhile (\<lambda>c. c \<noteq> CHR ''.'') n)
   \<and> output_crash_log_file_name n = Inr (takeWhile (\<lambda>c. c \<noteq> CHR ''.'') n @ ''_CRASHLOG.log'')
   \<and> output_crash_data_file_name n = Inr (takeWhile (\<lambda>c. c \<noteq> CHR ''.'') n @ ''_CRASHDUMP.txt'')
   \<and> (CHR ''.'' \<notin> set n \<longrightarrow>
        output_crash_log_file_name n = Inr (n @ ''_CRASHLOG.log'')
        \<and> output_crash_data_file_name n = Inr (n @ ''_CRASHDUMP.txt''))"
proof -
  have first: "index0 (split_str CHR ''.'' n) = Inr (takeWhile (\<lambda>c. c \<noteq> CHR ''.'') n)"
    using index0_split[of n] by (simp add: base_name_def)
  have whole: "takeWhile (\<lambda>c. c \<noteq> CHR ''.'') n = n" if "CHR ''.'' \<notin> set n"
    using that by (induction n) auto
  show ?thesis
    using first whole
    by (simp add: output_crash_log_file_name_def output_crash_data_file_name_def)
qed

text \<open>The name \<open>report\<close>, which has no period.\<close>

theorem name_derivation_witness:
  "CHR ''.'' \<notin> set ''report''
   \<and> output_crash_log_file_name ''report'' = Inr ''report_CRASHLOG.log''
   \<and> output_crash_data_file_name ''report'' = Inr ''report_CRASHDUMP.txt''"
  using name_derivation[of "''report''"] by simp



subsection \<open>The log record\<close>



subsection \<open>A missing source\<close>

text \<open>
  Claim C9. When nothing exists at the source path and the directory step completes,
  \<open>crash_data_manager\<close> ends with \<open>RelocateError\<close> after its one call of
  \<open>shutil.move\<close>, and the environment it leaves differs from the one it found only
  by the crash-data directory: no file is created, moved or changed.
\<close>

theorem crash_data_missing_source:
  assumes "\<not> path_exists st src"
      and "isdir st (output_crash_data_folder_path st) \<or> \<not> path_exists st (output_crash_data_folder_path st)"
  shows "crash_data_manager n src st =
           (st\<lparr>dirs := insert (output_crash_data_folder_path st) (dirs st)\<rparr>, Inl RelocateError)"
  using assms unfolding crash_data_manager_unfold
  by (auto simp: shutil_move_def path_exists_def)

text \<open>A source path at which nothing exists, in the example environment.\<close>

theorem crash_data_missing_source_witness:
  "\<not> path_exists example_env ''nowhere.txt''
   \<and> crash_data_manager ''nowhere.txt'' ''nowhere.txt'' example_env
     = (example_env\<lparr>dirs := {app_dir @ [bslash] @ ''Crash Data'', app_dir}\<rparr>, Inl RelocateError)"
proof -
  have h1: "\<not> path_exists example_env ''nowhere.txt''"
    by (simp add: example_defs)
  have h2: "isdir example_env (output_crash_data_folder_path example_env)
        \<or> \<not> path_exists example_env (output_crash_data_folder_path example_env)"
    by (simp add: example_defs)
  from crash_data_missing_source[OF h1 h2, of "''nowhere.txt''"] h1
  show ?thesis by (simp add: example_env_def output_crash_data_folder_path_def)
qed

subsection \<open>Successive crash logs\<close>

text \<open>
  Claim C7, as the code has it. Each call of \<open>crash_log_manager\<close> points the
  process-wide logging sink at its own derived path before it writes. For two
  successive successful calls whose input names have different base names (the second
  perhaps handling another exception), the two paths differ, each call appends exactly
  its own record to the file at its own path, and the second call leaves the file of
  the first as the first call left it. A file that did not exist before its call
  holds its own record and nothing else.
\<close>

theorem crash_logs_independent:
  assumes "base_name n1 \<noteq> base_name n2"
      and "crash_log_manager n1 b1 st = (st1, Inr p1)"
      and "crash_log_manager n2 b2 (st1\<lparr>exc_text := e2\<rparr>) = (st2, Inr p2)"
  shows "p1 \<noteq> p2
     \<and> log_target st1 = Some p1 \<and> log_target st2 = Some p2
     \<and> files st1 p1 = Some ((case files st p1 of None \<Rightarrow> [] | Some c \<Rightarrow> c)
                           @ render_record (if b1 then custom_message else format_exc st))
     \<and> files st2 p1 = files st1 p1
     \<and> files st2 p2 = Some ((case files st p2 of None \<Rightarrow> [] | Some c \<Rightarrow> c)
                           @ render_record (if b2 then custom_message
                                            else format_exc (st1\<lparr>exc_text := e2\<rparr>)))"
proof -
  have par: "parent_of_cwd (st1\<lparr>exc_text := e2\<rparr>) = parent_of_cwd st"
    using parent_of_cwd_log[of n1 b1 st] assms(2) by simp
  have p1: "p1 = crash_log_path st n1"
    using assms(2) unfolding crash_log_manager_unfold by (auto split: if_splits)
  have p2: "p2 = crash_log_path (st1\<lparr>exc_text := e2\<rparr>) n2"
    using assms(3) unfolding crash_log_manager_unfold by (auto split: if_splits)
  have ne: "p1 \<noteq> p2"
    unfolding p1 p2 using base_names_paths[OF assms(1)] par by metis
  have st1: "log_target st1 = Some p1
     \<and> files st1 = (files st)(p1 \<mapsto> (case files st p1 of None \<Rightarrow> [] | Some c \<Rightarrow> c)
                           @ render_record (if b1 then custom_message else format_exc st))"
    using assms(2) unfolding crash_log_manager_unfold p1 by (auto split: if_splits)
  have st2: "log_target st2 = Some p2
     \<and> files st2 = (files st1)(p2 \<mapsto> (case files st1 p2 of None \<Rightarrow> [] | Some c \<Rightarrow> c)
                           @ render_record (if b2 then custom_message
                                            else format_exc (st1\<lparr>exc_text := e2\<rparr>)))"
    using assms(3) unfolding crash_log_manager_unfold p2 by (auto split: if_splits)
  show ?thesis using ne st1 st2 by auto
qed

text \<open>
  Two crashes in the example environment, the first with an exception whose rendered
  text is \<open>boom\<close>, the second with the fixed message.
\<close>

theorem crash_logs_independent_witness:
  "base_name ''run_007.txt'' \<noteq> base_name ''data.bin''
   \<and> snd (crash_log_manager ''run_007.txt'' False (example_env\<lparr>exc_text := Some ''boom''\<rparr>))
       = Inr (crash_log_path example_env ''run_007.txt'')
   \<and> snd (crash_log_manager ''data.bin'' True
            (fst (crash_log_manager ''run_007.txt'' False (example_env\<lparr>exc_text := Some ''boom''\<rparr>))
               \<lparr>exc_text := None\<rparr>))
       = Inr (crash_log_path example_env ''data.bin'')
   \<and> files (fst (crash_log_manager ''data.bin'' True
            (fst (crash_log_manager ''run_007.txt'' False (example_env\<lparr>exc_text := Some ''boom''\<rparr>))
               \<lparr>exc_text := None\<rparr>)))
        (crash_log_path example_env ''run_007.txt'') = Some (render_record ''boom'')
   \<and> files (fst (crash_log_manager ''data.bin'' True
            (fst (crash_log_manager ''run_007.txt'' False (example_env\<lparr>exc_text := Some ''boom''\<rparr>))
               \<lparr>exc_text := None\<rparr>)))
        (crash_log_path example_env ''data.bin'') = Some (render_record custom_message)"
proof -
  let ?e = "example_env\<lparr>exc_text := Some ''boom''\<rparr>"
  have h1: "base_name ''run_007.txt'' \<noteq> base_name ''data.bin''"
    by (simp add: base_name_def)
  obtain s1 where c1: "crash_log_manager ''run_007.txt'' False ?e
                        = (s1, Inr (crash_log_path example_env ''run_007.txt''))"
    unfolding crash_log_manager_unfold by (simp add: example_defs)
  have s1: "isdir (s1\<lparr>exc_text := None\<rparr>) (output_crash_log_folder_path (s1\<lparr>exc_text := None\<rparr>))"
       "\<not> isdir (s1\<lparr>exc_text := None\<rparr>) (crash_log_path (s1\<lparr>exc_text := None\<rparr>) ''data.bin'')"
       "crash_log_path (s1\<lparr>exc_text := None\<rparr>) ''data.bin'' = crash_log_path example_env ''data.bin''"
    using c1 unfolding crash_log_manager_unfold by (auto simp: example_defs split: if_splits)
  obtain s2 where c2: "crash_log_manager ''data.bin'' True (s1\<lparr>exc_text := None\<rparr>)
                        = (s2, Inr (crash_log_path example_env ''data.bin''))"
    unfolding crash_log_manager_unfold using s1 by simp
  have f1: "files ?e (crash_log_path example_env ''run_007.txt'') = None"
       "files ?e (crash_log_path example_env ''data.bin'') = None"
    by (simp_all add: example_defs)
  from crash_logs_independent[OF h1 c1 c2] h1 c1 c2 f1
  show ?thesis by (simp add: format_exc_def)
qed

text \<open>
  Claim C7 as it is written, for any two different input names, fails for
  \<open>run.txt\<close> and \<open>run.bin\<close>: both calls derive one path, the handler opens it
  for appending, and the record of the second call follows the record of the first in
  the one file.
\<close>

theorem crash_log_collision_counterexample:
  "''run.txt'' \<noteq> ''run.bin''
   \<and> snd (crash_log_manager ''run.txt'' True example_env)
       = Inr (crash_log_path example_env ''run.txt'')
   \<and> snd (crash_log_manager ''run.bin'' False (fst (crash_log_manager ''run.txt'' True example_env)))
       = Inr (crash_log_path example_env ''run.txt'')
   \<and> files (fst (crash_log_manager ''run.bin'' False
                   (fst (crash_log_manager ''run.txt'' True example_env))))
        (crash_log_path example_env ''run.txt'')
       = Some (render_record custom_message @ render_record ''NoneType: None\<newline>'')"
  unfolding crash_log_manager_unfold
  by (simp add: example_defs format_exc_def)

subsection \<open>Names with one base\<close>

text \<open>
  Claim C10. Two input names with the same text before the first period give the same
  log path and the same data path. A later log call for the second name appends to the
  log file of the first; a later data call for the second name puts its file where the
  first call put the file of the first name, whose content is gone. (The sources are
  two existing files away from the derived path, at which no directory stands.)
\<close>

theorem base_name_collision:
  assumes "base_name n1 = base_name n2"
      and "crash_log_manager n1 b1 st = (sl1, Inr q1)"
      and "crash_log_manager n2 b2 sl1 = (sl2, Inr q2)"
      and "files st src1 = Some c1" and "files st src2 = Some c2" and "src1 \<noteq> src2"
      and "src1 \<noteq> crash_data_path st n1" and "src2 \<noteq> crash_data_path st n1"
      and "\<not> isdir st (crash_data_path st n1)"
      and "crash_data_manager n1 src1 st = (sd1, Inr p1)"
      and "crash_data_manager n2 src2 sd1 = (sd2, Inr p2)"
  shows "q2 = q1
     \<and> files sl2 q1 = Some ((case files sl1 q1 of None \<Rightarrow> [] | Some c \<Rightarrow> c)
                           @ render_record (if b2 then custom_message else format_exc sl1))
     \<and> p2 = p1 \<and> files sd1 p1 = Some c1 \<and> files sd2 p1 = Some c2"
proof -
  have lp: "crash_log_path s n1 = crash_log_path s n2" for s
    using assms(1) by (simp add: crash_log_path_def)
  have dp: "crash_data_path s n1 = crash_data_path s n2" for s
    using assms(1) by (simp add: crash_data_path_def)
  have q1: "q1 = crash_log_path st n1" and par: "parent_of_cwd sl1 = parent_of_cwd st"
    using assms(2) unfolding crash_log_manager_unfold by (auto split: if_splits)
  have q2: "q2 = crash_log_path sl1 n2
     \<and> files sl2 q2 = Some ((case files sl1 q2 of None \<Rightarrow> [] | Some c \<Rightarrow> c)
                           @ render_record (if b2 then custom_message else format_exc sl1))"
    using assms(3) unfolding crash_log_manager_unfold by (auto split: if_splits)
  have qq: "q2 = q1"
    using q1 q2 par lp by (simp add: crash_log_path_def)
  have d1: "p1 = crash_data_path st n1 \<and> files sd1 = ((files st)(src1 := None))(p1 \<mapsto> c1)
         \<and> dirs sd1 = insert (output_crash_data_folder_path st) (dirs st)
         \<and> parent_of_cwd sd1 = parent_of_cwd st"
    using data_move_ok[OF assms(4) assms(10) assms(7) assms(9)] .
  have same: "crash_data_path sd1 n2 = crash_data_path st n1"
    using d1 dp by (simp add: crash_data_path_def)
  have src2: "files sd1 src2 = Some c2"
    using d1 assms(5,6,8) by auto
  have nd: "\<not> isdir sd1 (crash_data_path sd1 n2)"
    using d1 assms(9) data_path_not_folder[of st n1] unfolding same by (simp add: isdir_def)
  have d2: "p2 = crash_data_path sd1 n2 \<and> files sd2 = ((files sd1)(src2 := None))(p2 \<mapsto> c2)"
    using data_move_ok[OF src2 assms(11) _ nd] assms(8) unfolding same by simp
  show ?thesis using qq q2 d1 d2 same by auto
qed

text \<open>
  \<open>sample.txt\<close> and \<open>sample.csv\<close> in the example environment: after both data
  calls the one crash file holds the content of the second source.
\<close>

theorem base_name_collision_witness:
  "''sample.txt'' \<noteq> ''sample.csv'' \<and> base_name ''sample.txt'' = base_name ''sample.csv''
   \<and> snd (crash_log_manager ''sample.txt'' True example_env)
       = snd (crash_log_manager ''sample.csv'' True (fst (crash_log_manager ''sample.txt'' True example_env)))
   \<and> snd (crash_data_manager ''sample.txt'' sample_path example_env)
       = snd (crash_data_manager ''sample.csv'' other_path
                (fst (crash_data_manager ''sample.txt'' sample_path example_env)))
   \<and> files (fst (crash_data_manager ''sample.txt'' sample_path example_env))
        (crash_data_path example_env ''sample.txt'') = Some ''1.5 V''
   \<and> files (fst (crash_data_manager ''sample.csv'' other_path
                (fst (crash_data_manager ''sample.txt'' sample_path example_env))))
        (crash_data_path example_env ''sample.txt'') = Some ''2.5 V''"
proof -
  have h1: "base_name ''sample.txt'' = base_name ''sample.csv''"
    by (simp add: base_name_def)
  obtain sl1 q1 where l1: "crash_log_manager ''sample.txt'' True example_env = (sl1, Inr q1)"
    unfolding crash_log_manager_unfold by (simp add: example_defs)
  obtain sl2 q2 where l2: "crash_log_manager ''sample.csv'' True sl1 = (sl2, Inr q2)"
    using l1 unfolding crash_log_manager_unfold by (auto simp: example_defs split: if_splits)
  have f1: "files example_env sample_path = Some ''1.5 V''"
   and f2: "files example_env other_path = Some ''2.5 V''"
   and ne: "sample_path \<noteq> other_path"
   and n1: "sample_path \<noteq> crash_data_path example_env ''sample.txt''"
   and n2: "other_path \<noteq> crash_data_path example_env ''sample.txt''"
   and nd: "\<not> isdir example_env (crash_data_path example_env ''sample.txt'')"
    by (simp_all add: example_defs)
  obtain sd1 p1 where d1: "crash_data_manager ''sample.txt'' sample_path example_env = (sd1, Inr p1)"
    unfolding crash_data_manager_unfold by (simp add: example_defs shutil_move_def)
  obtain sd2 p2 where d2: "crash_data_manager ''sample.csv'' other_path sd1 = (sd2, Inr p2)"
    using d1 unfolding crash_data_manager_unfold
    by (auto simp: example_defs shutil_move_def split: if_splits)
  have p1: "p1 = crash_data_path example_env ''sample.txt''"
    using data_move_ok[OF f1 d1 n1 nd] by simp
  from base_name_collision[OF h1 l1 l2 f1 f2 ne n1 n2 nd d1 d2] h1 l1 l2 d1 d2 p1
  show ?thesis by simp
qed

subsection \<open>The lock: helper facts\<close>

lemma excl_init: "excl (init n opened)"
  by (auto simp: excl_def init_def owns_lock_def)

lemma exclI:
  assumes "\<And>t. t < length (pcs g) \<Longrightarrow> owns_lock (pcs g ! t) \<Longrightarrow> locked g"
      and "\<And>t u. t < length (pcs g) \<Longrightarrow> u < length (pcs g) \<Longrightarrow>
             owns_lock (pcs g ! t) \<Longrightarrow> owns_lock (pcs g ! u) \<Longrightarrow> t = u"
      and "\<And>t. t < length (pcs g) \<Longrightarrow> pcs g ! t = Closed \<Longrightarrow> \<not> is_open g"
  shows "excl g"
  using assms unfolding excl_def by blast

lemma excl_locked: "excl g \<Longrightarrow> t < length (pcs g) \<Longrightarrow> owns_lock (pcs g ! t) \<Longrightarrow> locked g"
  unfolding excl_def by blast

lemma excl_unique: "excl g \<Longrightarrow> t < length (pcs g) \<Longrightarrow> u < length (pcs g) \<Longrightarrow>
   owns_lock (pcs g ! t) \<Longrightarrow> owns_lock (pcs g ! u) \<Longrightarrow> t = u"
  unfolding excl_def by blast


text \<open>A thread that owns the lock moves on: nobody else owns it before or after.\<close>

lemma excl_move:
  assumes e: "excl g" and t: "t < length (pcs g)" and o: "owns_lock (pcs g ! t)"
      and l: "locked g' = locked g" and p: "pcs g' = (pcs g)[t := q]"
      and c2: "q = Closed \<longrightarrow> \<not> is_open g'"
  shows "excl g'"
proof (rule exclI)
  fix u assume "u < length (pcs g')" "owns_lock (pcs g' ! u)"
  show "locked g'" using excl_locked[OF e t o] l by simp
next
  fix u v assume u: "u < length (pcs g')" and v: "v < length (pcs g')"
    and ou: "owns_lock (pcs g' ! u)" and ov: "owns_lock (pcs g' ! v)"
  have "u = t"
  proof (rule ccontr)
    assume "u \<noteq> t"
    then have "owns_lock (pcs g ! u)" using ou p by simp
    then show False using excl_unique[OF e _ t _ o, of u] u p \<open>u \<noteq> t\<close> by simp
  qed
  moreover have "v = t"
  proof (rule ccontr)
    assume "v \<noteq> t"
    then have "owns_lock (pcs g ! v)" using ov p by simp
    then show False using excl_unique[OF e _ t _ o, of v] v p \<open>v \<noteq> t\<close> by simp
  qed
  ultimately show "u = v" by simp
next
  fix u assume u: "u < length (pcs g')" and cl: "pcs g' ! u = Closed"
  have "u = t"
  proof (rule ccontr)
    assume "u \<noteq> t"
    then have "pcs g ! u = Closed" using cl p by simp
    then have "owns_lock (pcs g ! u)" by (simp add: owns_lock_def)
    then show False using excl_unique[OF e _ t _ o, of u] u p \<open>u \<noteq> t\<close> by simp
  qed
  then have "q = Closed" using cl p t by simp
  then show "\<not> is_open g'" using c2 by simp
qed


text \<open>The owner gives the lock up, or nobody owned it and nobody does.\<close>

lemma excl_leave:
  assumes e: "excl g" and t: "t < length (pcs g)" and o: "owns_lock (pcs g ! t) \<or> \<not> locked g"
      and p: "pcs g' = (pcs g)[t := q]" and q: "\<not> owns_lock q"
  shows "excl g'"
proof -
  have none: "\<not> owns_lock (pcs g' ! u)" if u: "u < length (pcs g')" for u
  proof (cases "u = t")
    case True
    then show ?thesis using p t q by simp
  next
    case False
    show ?thesis
    proof
      assume "owns_lock (pcs g' ! u)"
      then have ou: "owns_lock (pcs g ! u)" using False p by simp
      have ul: "u < length (pcs g)" using u p by simp
      from o show False
      proof
        assume "owns_lock (pcs g ! t)"
        then show False using excl_unique[OF e ul t ou] False by simp
      next
        assume "\<not> locked g"
        then show False using excl_locked[OF e ul ou] by simp
      qed
    qed
  qed
  show ?thesis
  proof (rule exclI)
    fix u assume "u < length (pcs g')" "owns_lock (pcs g' ! u)"
    then show "locked g'" using none by blast
  next
    fix u v assume "u < length (pcs g')" "owns_lock (pcs g' ! u)"
    then show "u = v" using none by blast
  next
    fix u assume "u < length (pcs g')" "pcs g' ! u = Closed"
    then show "\<not> is_open g'" using none[of u] by (simp add: owns_lock_def)
  qed
qed

text \<open>A thread takes the free lock.\<close>

lemma excl_take:
  assumes e: "excl g" and t: "t < length (pcs g)" and f: "\<not> locked g"
      and l: "locked g'" and p: "pcs g' = (pcs g)[t := Locked]"
  shows "excl g'"
proof -
  have none: "u = t" if u: "u < length (pcs g')" and ou: "owns_lock (pcs g' ! u)" for u
  proof (rule ccontr)
    assume "u \<noteq> t"
    then have "owns_lock (pcs g ! u)" using ou p by simp
    then show False using excl_locked[OF e _ _, of u] u p f by simp
  qed
  show ?thesis
  proof (rule exclI)
    fix u assume "u < length (pcs g')" "owns_lock (pcs g' ! u)"
    show "locked g'" by (rule l)
  next
    fix u v assume "u < length (pcs g')" "owns_lock (pcs g' ! u)"
      "v < length (pcs g')" "owns_lock (pcs g' ! v)"
    then show "u = v" using none by blast
  next
    fix u assume u: "u < length (pcs g')" and c: "pcs g' ! u = Closed"
    then have "u = t" using none[OF u] by (simp add: owns_lock_def)
    then show "\<not> is_open g'" using c p t by simp
  qed
qed

lemma excl_body:
  assumes e: "excl g" and t: "t < length (pcs g)" and h: "pcs g ! t = Holding"
  shows "excl (g\<lparr>is_open := b\<rparr>)"
proof -
  have "excl (g\<lparr>is_open := b\<rparr>)"
    by (rule excl_move[OF e t, where q = Holding])
       (use h list_update_id[of "pcs g" t] in \<open>simp_all add: owns_lock_def\<close>)
  then show ?thesis .
qed

lemma excl_step:
  assumes e: "excl g" and s: "step a g = Some g'"
  shows "excl g'"
proof (cases a)
  case (Acquire t)
  then have d: "g' = goto t Locked (g\<lparr>locked := True\<rparr>)" and t: "t < length (pcs g)" and f: "\<not> locked g"
    using s by (auto simp: at_def split: if_splits)
  show ?thesis by (rule excl_take[OF e t f]) (simp_all add: d goto_def)
next
  case (Open t ok)
  then have at: "at g t Locked" using s by (simp split: if_splits)
  then have t: "t < length (pcs g)" and o: "owns_lock (pcs g ! t)"
    by (simp_all add: at_def owns_lock_def)
  from Open s at consider
      "g' = goto t Holding (g\<lparr>is_open := True\<rparr>)"
    | "g' = goto t Failed g"
    | "g' = goto t Holding g"
    by (auto split: if_splits)
  then show ?thesis
  proof cases
    case 1
    show ?thesis by (rule excl_move[OF e t o, where q = Holding]) (simp_all add: 1 goto_def)
  next
    case 2
    show ?thesis by (rule excl_leave[OF e t, where q = Failed]) (use o in \<open>simp_all add: 2 goto_def owns_lock_def\<close>)
  next
    case 3
    show ?thesis by (rule excl_move[OF e t o, where q = Holding]) (simp_all add: 3 goto_def)
  qed
next
  case (Body t b)
  then have "at g t Holding" and d: "g' = g\<lparr>is_open := b\<rparr>"
    using s by (simp_all split: if_splits)
  then show ?thesis using excl_body[OF e, of t b] by (auto simp: at_def)
next
  case (Close t)
  then have at: "at g t Holding" and d: "g' = goto t Closed (g\<lparr>is_open := False\<rparr>)"
    using s by (simp_all split: if_splits)
  then have t: "t < length (pcs g)" and o: "owns_lock (pcs g ! t)"
    by (simp_all add: at_def owns_lock_def)
  show ?thesis by (rule excl_move[OF e t o, where q = Closed]) (simp_all add: d goto_def)
next
  case (Release t)
  then have at: "at g t Closed" and d: "g' = goto t Outside (g\<lparr>locked := False\<rparr>)"
    using s by (simp_all split: if_splits)
  then have t: "t < length (pcs g)" and o: "owns_lock (pcs g ! t)"
    by (simp_all add: at_def owns_lock_def)
  show ?thesis by (rule excl_leave[OF e t, where q = Outside]) (use o in \<open>simp_all add: d goto_def owns_lock_def\<close>)
qed

lemma excl_run: "excl g \<Longrightarrow> run as g = Some g' \<Longrightarrow> excl g'"
proof (induction as arbitrary: g)
  case Nil
  then show ?case by simp
next
  case (Cons a as)
  then show ?case by (auto split: option.splits dest: excl_step)
qed

lemma at_most_one:
  "(\<And>i j. i < length xs \<Longrightarrow> j < length xs \<Longrightarrow> P (xs ! i) \<Longrightarrow> P (xs ! j) \<Longrightarrow> i = j)
   \<Longrightarrow> length (filter P xs) \<le> 1"
proof (induction xs)
  case Nil
  then show ?case by simp
next
  case (Cons x xs)
  have tl: "length (filter P xs) \<le> 1"
  proof (rule Cons.IH)
    fix i j assume "i < length xs" "j < length xs" "P (xs ! i)" "P (xs ! j)"
    then have "Suc i = Suc j" using Cons.prems[of "Suc i" "Suc j"] by simp
    then show "i = j" by simp
  qed
  show ?case
  proof (cases "P x")
    case False
    then show ?thesis using tl by simp
  next
    case True
    have "\<not> P y" if "y \<in> set xs" for y
    proof
      assume py: "P y"
      from that obtain i where "i < length xs" "xs ! i = y" by (auto simp: in_set_conv_nth)
      then have "Suc i = 0" using Cons.prems[of "Suc i" 0] True py by simp
      then show False by simp
    qed
    then have "filter P xs = []" by (simp add: filter_empty_conv)
    then show ?thesis using True by simp
  qed
qed

lemma in_window_owns: "in_window p \<Longrightarrow> owns_lock p"
  by (auto simp: in_window_def owns_lock_def)










subsection \<open>Mutual exclusion\<close>

text \<open>
  Claim C1. In every state that the threads can reach from a freshly constructed
  object, by any schedule, at most one thread is between the return of its
  \<open>__enter__\<close> and the release in its \<open>__exit__\<close>: the number of threads in the
  window is at most one, and two threads in the window are the same thread.
\<close>

theorem mutual_exclusion:
  assumes "run as (init n opened) = Some g"
  shows "holders g \<le> 1
     \<and> (\<forall>t u. t < length (pcs g) \<and> u < length (pcs g)
              \<and> in_window (pcs g ! t) \<and> in_window (pcs g ! u) \<longrightarrow> t = u)"
proof -
  have e: "excl g" using excl_run[OF excl_init assms] .
  have u: "t = u" if "t < length (pcs g)" "u < length (pcs g)"
       "in_window (pcs g ! t)" "in_window (pcs g ! u)" for t u
    using excl_unique[OF e that(1,2)] that(3,4) in_window_owns by blast
  have "length (filter in_window (pcs g)) \<le> 1"
    by (rule at_most_one) (rule u)
  then show ?thesis using u by (auto simp: holders_def)
qed

text \<open>
  Thread 0 of two is in the body of its \<open>with\<close> statement; thread 1 is blocked in
  \<open>acquire()\<close>.
\<close>

theorem mutual_exclusion_witness:
  "run [Acquire 0, Open 0 True, Body 0 True] (init 2 False)
      = Some \<lparr>locked = True, is_open = True, pcs = [Holding, Outside]\<rparr>
   \<and> holders \<lparr>locked = True, is_open = True, pcs = [Holding, Outside]\<rparr> \<le> 1
   \<and> step (Acquire 1) \<lparr>locked = True, is_open = True, pcs = [Holding, Outside]\<rparr> = None"
proof -
  have r: "run [Acquire 0, Open 0 True, Body 0 True] (init 2 False)
      = Some \<lparr>locked = True, is_open = True, pcs = [Holding, Outside]\<rparr>"
    by (simp add: init_def at_def goto_def numeral_2_eq_2)
  from mutual_exclusion[OF r] r show ?thesis by (simp add: at_def)
qed

subsection \<open>A failed open\<close>

text \<open>
  Claim C2 says the lock is released when \<open>open()\<close> fails in \<open>__enter__\<close>. The
  method has no handler around \<open>self.open()\<close>, and the \<open>with\<close> statement does not
  run \<open>__exit__\<close> when \<open>__enter__\<close> raises: on a closed port that cannot be opened,
  thread 0 leaves \<open>__enter__\<close> with the exception and the lock stays locked. From
  that state no thread can take any step; every later \<open>acquire()\<close> blocks for good.
\<close>

theorem open_failure_keeps_lock:
  "run [Acquire 0, Open 0 False] (init 2 False)
      = Some \<lparr>locked = True, is_open = False, pcs = [Failed, Outside]\<rparr>
   \<and> (\<forall>a. step a \<lparr>locked = True, is_open = False, pcs = [Failed, Outside]\<rparr> = None)"
proof -
  have r: "run [Acquire 0, Open 0 False] (init 2 False)
      = Some \<lparr>locked = True, is_open = False, pcs = [Failed, Outside]\<rparr>"
    by (simp add: init_def at_def goto_def numeral_2_eq_2)
  have "step a \<lparr>locked = True, is_open = False, pcs = [Failed, Outside]\<rparr> = None" for a
    by (cases a) (auto simp: at_def nth_Cons' )
  then show ?thesis using r by simp
qed

subsection \<open>The port after a release\<close>




end
